theory Spec2Isabelle
  imports Main
begin

section \<open>Parameter sets, tensors and errors\<close>

text \<open>
  The development embeds \<^verbatim>\<open>docs/examples/te_llama/te_llama.py\<close>.

  A tensor is modelled by its value: the list of its slices along axis 0, with an arbitrary
  type \<open>'a\<close> of slices. \<^verbatim>\<open>torch.cat((a, b), dim=0)\<close> is then list append.
  The in-place copy \<^verbatim>\<open>t.data[:] = v\<close> is modelled for operands of equal shape and
  element type, where the parameter afterwards holds exactly the values of \<open>v\<close>; the shape
  check, broadcasting and dtype conversion of the tensor library are not part of this file.

  A state dict is a Python dict from parameter names to tensors: an association list in
  insertion order, read with \<open>map_of\<close>. Distinct keys hold distinct tensor objects, and the
  source dict shares no storage with the target dict. Parameter names are strings of
  Latin-1 characters.
\<close>

type_synonym 'a tensor = "'a list"

type_synonym 'a state_dict = "(string \<times> 'a tensor) list"

datatype error =
    KeyError string
  | AssertionError string
  | Raised string

definition cat0 :: "'a tensor \<Rightarrow> 'a tensor \<Rightarrow> 'a tensor" where
  "cat0 a b = a @ b"

text \<open>\<^verbatim>\<open>k in d\<close>\<close>

definition contains :: "'a state_dict \<Rightarrow> string \<Rightarrow> bool" where
  "contains d k = (k \<in> set (map fst d))"

text \<open>\<^verbatim>\<open>d[k]\<close>: a missing key raises \<^verbatim>\<open>KeyError\<close>.\<close>

definition getitem :: "'a state_dict \<Rightarrow> string \<Rightarrow> error + 'a tensor" where
  "getitem d k = (case map_of d k of None \<Rightarrow> Inl (KeyError k) | Some v \<Rightarrow> Inr v)"

text \<open>
  \<^verbatim>\<open>d[k].data[:] = v\<close> for a key \<open>k\<close> of \<open>d\<close>: the tensor stored under \<open>k\<close> is overwritten
  in place; no entry is added or removed.
\<close>

definition copy_into :: "'a state_dict \<Rightarrow> string \<Rightarrow> 'a tensor \<Rightarrow> 'a state_dict" where
  "copy_into d k v = map (\<lambda>(k', t). if k' = k then (k', v) else (k', t)) d"

section \<open>The layer prefix pattern\<close>

text \<open>
  \<^verbatim>\<open>re.match('model.layers.\d+.', param_key)\<close>. The pattern is compiled as Python compiles
  it: an unescaped \<^verbatim>\<open>.\<close> matches any character except a newline, \<^verbatim>\<open>\d\<close> a decimal digit
  (among Latin-1 characters, \<^verbatim>\<open>0\<close> to \<^verbatim>\<open>9\<close>), and \<^verbatim>\<open>+\<close> is greedy with backtracking. \<open>re_match\<close> returns \<^verbatim>\<open>m.group()\<close>, the text
  matched at the start of the subject, or \<open>None\<close>.
\<close>

datatype atom = Lit char | AnyChar | Digit

datatype item = One atom | Plus atom

definition is_digit :: "char \<Rightarrow> bool" where
  "is_digit c = (c \<in> set ''0123456789'')"

fun atom_matches :: "atom \<Rightarrow> char \<Rightarrow> bool" where
  "atom_matches (Lit a) c = (c = a)"
| "atom_matches AnyChar c = (c \<noteq> CHR 0x0A)"
| "atom_matches Digit c = is_digit c"

text \<open>
  \<open>match_here its s\<close> matches the items \<open>its\<close> at the start of \<open>s\<close>; \<open>match_more a its s\<close>
  matches further repetitions of \<open>a\<close>, as many as possible first, and then \<open>its\<close>.
\<close>

function match_here :: "item list \<Rightarrow> string \<Rightarrow> string option"
  and match_more :: "atom \<Rightarrow> item list \<Rightarrow> string \<Rightarrow> string option" where
  "match_here [] s = Some []"
| "match_here (One a # its) [] = None"
| "match_here (One a # its) (c # s) =
     (if atom_matches a c then map_option ((#) c) (match_here its s) else None)"
| "match_here (Plus a # its) [] = None"
| "match_here (Plus a # its) (c # s) =
     (if atom_matches a c then map_option ((#) c) (match_more a its s) else None)"
| "match_more a its [] = match_here its []"
| "match_more a its (c # s) =
     (if atom_matches a c
      then (case match_more a its s of
              Some m \<Rightarrow> Some (c # m)
            | None \<Rightarrow> match_here its (c # s))
      else match_here its (c # s))"
  by pat_completeness auto
termination
  by (relation "measure (\<lambda>x. case x of
          Inl (its, s) \<Rightarrow> 2 * length its + 2 * length s
        | Inr (a, its, s) \<Rightarrow> 2 * length its + 2 * length s + 1)") auto

definition literal :: "string \<Rightarrow> item list" where
  "literal s = map (\<lambda>c. One (Lit c)) s"

definition layer_prefix_pat :: "item list" where
  "layer_prefix_pat =
     literal ''model'' @ [One AnyChar] @ literal ''layers'' @ [One AnyChar, Plus Digit, One AnyChar]"

definition re_match :: "item list \<Rightarrow> string \<Rightarrow> string option" where
  "re_match pat s = match_here pat s"

section \<open>The weight remapper\<close>

text \<open>
  The first loop of \<^verbatim>\<open>replace_params\<close>: every key of the source dict that matches the
  pattern contributes the matched text to the set \<^verbatim>\<open>all_layer_prefixes\<close>.
\<close>

definition all_layer_prefixes :: "'a state_dict \<Rightarrow> string set" where
  "all_layer_prefixes hf_state_dict =
     fold (\<lambda>param_key acc.
             case re_match layer_prefix_pat param_key of
               None \<Rightarrow> acc
             | Some g \<Rightarrow> insert g acc)
          (map fst hf_state_dict) {}"

text \<open>
  The eight guarded assignments of the second loop, in the order of the source. Each row is
  the suffix of the target key that is tested and overwritten, and the value assigned: the
  source tensor under one suffix, or the concatenation of two.
\<close>

datatype source = Copy string | Concat string string

type_synonym rule = "string \<times> source"

definition correspondence :: "rule list" where
  "correspondence =
     [(''self_attention.layernorm_qkv.layer_norm_weight'', Copy ''input_layernorm.weight''),
      (''self_attention.layernorm_qkv.query_weight'', Copy ''self_attn.q_proj.weight''),
      (''self_attention.layernorm_qkv.key_weight'', Copy ''self_attn.k_proj.weight''),
      (''self_attention.layernorm_qkv.value_weight'', Copy ''self_attn.v_proj.weight''),
      (''self_attention.proj.weight'', Copy ''self_attn.o_proj.weight''),
      (''layernorm_mlp.layer_norm_weight'', Copy ''post_attention_layernorm.weight''),
      (''layernorm_mlp.fc1_weight'', Concat ''mlp.gate_proj.weight'' ''mlp.up_proj.weight''),
      (''layernorm_mlp.fc2_weight'', Copy ''mlp.down_proj.weight'')]"

fun source_keys :: "source \<Rightarrow> string list" where
  "source_keys (Copy s) = [s]"
| "source_keys (Concat s1 s2) = [s1, s2]"

text \<open>The right-hand side of an assignment; the lookups are made left to right.\<close>

fun source_value :: "'a state_dict \<Rightarrow> string \<Rightarrow> source \<Rightarrow> error + 'a tensor" where
  "source_value hf layer_prefix (Copy s) = getitem hf (layer_prefix @ s)"
| "source_value hf layer_prefix (Concat s1 s2) =
     (case getitem hf (layer_prefix @ s1) of
        Inl e \<Rightarrow> Inl e
      | Inr a \<Rightarrow>
          (case getitem hf (layer_prefix @ s2) of
             Inl e \<Rightarrow> Inl e
           | Inr b \<Rightarrow> Inr (cat0 a b)))"

text \<open>
  One \<^verbatim>\<open>if layer_prefix + ... in te_state_dict: te_state_dict[...].data[:] = ...\<close>.
  The result is the target dict after the statement and the exception raised, if any.
\<close>

definition apply_rule ::
  "'a state_dict \<Rightarrow> string \<Rightarrow> rule \<Rightarrow> 'a state_dict \<Rightarrow> 'a state_dict \<times> error option" where
  "apply_rule hf layer_prefix r te =
     (if contains te (layer_prefix @ fst r)
      then (case source_value hf layer_prefix (snd r) of
              Inl e \<Rightarrow> (te, Some e)
            | Inr v \<Rightarrow> (copy_into te (layer_prefix @ fst r) v, None))
      else (te, None))"

fun apply_rules ::
  "'a state_dict \<Rightarrow> string \<Rightarrow> rule list \<Rightarrow> 'a state_dict \<Rightarrow> 'a state_dict \<times> error option" where
  "apply_rules hf layer_prefix [] te = (te, None)"
| "apply_rules hf layer_prefix (r # rs) te =
     (case apply_rule hf layer_prefix r te of
        (te', Some e) \<Rightarrow> (te', Some e)
      | (te', None) \<Rightarrow> apply_rules hf layer_prefix rs te')"

text \<open>The loop \<^verbatim>\<open>for layer_prefix in all_layer_prefixes\<close>, over the set in the order \<open>ps\<close>.\<close>

fun update_layers ::
  "'a state_dict \<Rightarrow> string list \<Rightarrow> 'a state_dict \<Rightarrow> 'a state_dict \<times> error option" where
  "update_layers hf [] te = (te, None)"
| "update_layers hf (layer_prefix # ps) te =
     (case apply_rules hf layer_prefix correspondence te of
        (te', Some e) \<Rightarrow> (te', Some e)
      | (te', None) \<Rightarrow> update_layers hf ps te')"

text \<open>
  Python does not fix the order in which a set of strings is iterated. \<open>replace_params_in ps\<close>
  is the run of \<^verbatim>\<open>replace_params\<close> that visits the prefixes in the order \<open>ps\<close>; the orders
  a run can take are the duplicate-free enumerations of the set. The result is the target
  dict as the call leaves it, and either the exception raised or the set returned.
\<close>

definition iteration_order :: "'a state_dict \<Rightarrow> string list \<Rightarrow> bool" where
  "iteration_order hf ps = (distinct ps \<and> set ps = all_layer_prefixes hf)"

definition replace_params_in ::
  "string list \<Rightarrow> 'a state_dict \<Rightarrow> 'a state_dict \<Rightarrow> 'a state_dict \<times> (error + string set)" where
  "replace_params_in ps hf_state_dict te_state_dict =
     (case update_layers hf_state_dict ps te_state_dict of
        (te', Some e) \<Rightarrow> (te', Inl e)
      | (te', None) \<Rightarrow> (te', Inr (all_layer_prefixes hf_state_dict)))"

text \<open>The run that visits the prefixes in the order of their first occurrence among the keys.\<close>

definition first_occurrence_order :: "'a state_dict \<Rightarrow> string list" where
  "first_occurrence_order hf =
     rev (remdups (rev (List.map_filter (re_match layer_prefix_pat) (map fst hf))))"

definition replace_params ::
  "'a state_dict \<Rightarrow> 'a state_dict \<Rightarrow> 'a state_dict \<times> (error + string set)" where
  "replace_params hf_state_dict te_state_dict =
     replace_params_in (first_occurrence_order hf_state_dict) hf_state_dict te_state_dict"

section \<open>The model assembler\<close>

text \<open>
  The module attribute \<^verbatim>\<open>transformers.models.llama.modeling_llama.LlamaDecoderLayer\<close> is a
  global slot holding a class. The world a call runs in is that slot together with the log
  of the calls made to the checkpoint loader, oldest first.
\<close>

datatype layer_class = HFLlamaDecoderLayer | TELlamaDecoderLayer | OtherClass nat

datatype io_event = ResolveShards string string | LoadShard string

record world =
  LlamaDecoderLayer :: layer_class
  io_log :: "io_event list"

text \<open>
  The collaborators the file imports and does not define. A model is represented by its
  state dict. The constructor of the host model runs in the world and may change it and may
  raise; the file system is fixed during a call.
\<close>

record ('cfg, 'a) externals =
  LlamaForCausalLM :: "'cfg \<Rightarrow> world \<Rightarrow> world \<times> (error + 'a state_dict)"
  to_dtype :: "'a state_dict \<Rightarrow> string \<Rightarrow> 'a state_dict"
  isfile :: "string \<Rightarrow> bool"
  get_checkpoint_shard_files :: "string \<Rightarrow> string \<Rightarrow> error + string list"
  load_state_dict :: "string \<Rightarrow> error + 'a state_dict"
  load_state_dict_into_model :: "'a state_dict \<Rightarrow> 'a state_dict \<Rightarrow> 'a state_dict \<times> string list"

text \<open>
  The context manager \<^verbatim>\<open>replace_decoder\<close> around a body: the slot is saved and overwritten,
  the body runs, and the \<^verbatim>\<open>finally\<close> clause writes the saved class back whether the body
  returned or raised; an exception of the body propagates after that.
\<close>

definition replace_decoder ::
  "layer_class \<Rightarrow> (world \<Rightarrow> world \<times> (error + 'r)) \<Rightarrow> world \<Rightarrow> world \<times> (error + 'r)" where
  "replace_decoder te_decodder_cls body w =
     (let original_llama_decoder_cls = LlamaDecoderLayer w;
          w1 = w\<lparr>LlamaDecoderLayer := te_decodder_cls\<rparr>
      in case body w1 of
           (w2, Inl e) \<Rightarrow> (w2\<lparr>LlamaDecoderLayer := original_llama_decoder_cls\<rparr>, Inl e)
         | (w2, Inr x) \<Rightarrow> (w2\<lparr>LlamaDecoderLayer := original_llama_decoder_cls\<rparr>, Inr x))"

text \<open>\<^verbatim>\<open>TELlamaForCausalLM.__new__\<close>\<close>

definition TELlamaForCausalLM_new ::
  "('cfg, 'a) externals \<Rightarrow> 'cfg \<Rightarrow> world \<Rightarrow> world \<times> (error + 'a state_dict)" where
  "TELlamaForCausalLM_new ext config w =
     replace_decoder TELlamaDecoderLayer (LlamaForCausalLM ext config) w"








section \<open>Notions used in the statements\<close>

text \<open>
  The pattern as the specification words it: the text \<^verbatim>\<open>model.layers.\<close>, one or more digits,
  and a dot.
\<close>

definition spec_layer_prefix_pat :: "item list" where
  "spec_layer_prefix_pat = literal ''model.layers.'' @ [Plus Digit, One (Lit (CHR ''.''))]"

text \<open>
  A source dict is complete when it holds, for each of its layer prefixes, every source key
  that the table reads; a target dict is complete for a set of prefixes when it holds every
  target key of the table under each of them.
\<close>

definition complete_source :: "'a state_dict \<Rightarrow> bool" where
  "complete_source hf =
     (\<forall>p\<in>all_layer_prefixes hf. \<forall>r\<in>set correspondence. \<forall>s\<in>set (source_keys (snd r)).
        contains hf (p @ s))"


text \<open>
  The source keys of every rule whose target key exists are present, for the prefixes \<open>P\<close>.
\<close>

definition sources_present :: "'a state_dict \<Rightarrow> 'a state_dict \<Rightarrow> string set \<Rightarrow> bool" where
  "sources_present hf te P =
     (\<forall>p\<in>P. \<forall>r\<in>set correspondence.
        contains te (p @ fst r) \<longrightarrow> (\<forall>s\<in>set (source_keys (snd r)). contains hf (p @ s)))"


text \<open>
  A split of a source dict into two shards along a layer boundary: each shard is a part of
  the dict, the two cover its keys, and no layer is cut, so that each shard is complete.
\<close>

definition shard_of :: "'a state_dict \<Rightarrow> 'a state_dict \<Rightarrow> bool" where
  "shard_of hf1 hf = (\<forall>k\<in>set (map fst hf1). map_of hf k = map_of hf1 k)"

definition layer_split :: "'a state_dict \<Rightarrow> 'a state_dict \<Rightarrow> 'a state_dict \<Rightarrow> bool" where
  "layer_split hf hf1 hf2 =
     (shard_of hf1 hf \<and> shard_of hf2 hf
      \<and> set (map fst hf) = set (map fst hf1) \<union> set (map fst hf2)
      \<and> complete_source hf1 \<and> complete_source hf2)"

text \<open>
  The effect of a set \<open>S\<close> of executed assignments (prefix and rule) on one entry of the
  target dict: an entry whose key is a target of \<open>S\<close> holds a value written by \<open>S\<close>, any
  other entry is unchanged.
\<close>

definition writes :: "'a state_dict \<Rightarrow> (string \<times> rule) set \<Rightarrow> string \<Rightarrow> 'a tensor \<Rightarrow> bool" where
  "writes hf S k v = (\<exists>(p, r)\<in>S. k = p @ fst r \<and> source_value hf p (snd r) = Inr v)"

definition targets :: "(string \<times> rule) set \<Rightarrow> string set" where
  "targets S = (\<lambda>(p, r). p @ fst r) ` S"

definition remap_rel ::
  "'a state_dict \<Rightarrow> (string \<times> rule) set \<Rightarrow> string \<times> 'a tensor \<Rightarrow> string \<times> 'a tensor \<Rightarrow> bool" where
  "remap_rel hf S x y =
     (fst y = fst x \<and> (if fst x \<in> targets S then writes hf S (fst x) (snd y) else snd y = snd x))"



section \<open>Example parameter sets\<close>

text \<open>
  A checkpoint layer under the prefix \<open>p\<close> with nine distinguishable one-row tensors, and a
  freshly built target layer.
\<close>

definition hf_layer :: "string \<Rightarrow> nat \<Rightarrow> nat state_dict" where
  "hf_layer p n =
     [(p @ ''input_layernorm.weight'', [n]),
      (p @ ''self_attn.q_proj.weight'', [n + 1]),
      (p @ ''self_attn.k_proj.weight'', [n + 2]),
      (p @ ''self_attn.v_proj.weight'', [n + 3]),
      (p @ ''self_attn.o_proj.weight'', [n + 4]),
      (p @ ''post_attention_layernorm.weight'', [n + 5]),
      (p @ ''mlp.gate_proj.weight'', [n + 6]),
      (p @ ''mlp.up_proj.weight'', [n + 7]),
      (p @ ''mlp.down_proj.weight'', [n + 8])]"

definition te_layer :: "string \<Rightarrow> nat state_dict" where
  "te_layer p = map (\<lambda>r. (p @ fst r, [0])) correspondence"

definition l0 :: string where
  "l0 = ''model.layers.0.''"

definition l1 :: string where
  "l1 = ''model.layers.1.''"


definition ex_te :: "nat state_dict" where
  "ex_te = te_layer l0 @ te_layer l1 @ [(''model.norm.weight'', [9])]"

text \<open>A shard that holds only the attention tensors of layer 0.\<close>

definition ex_hf_partial :: "nat state_dict" where
  "ex_hf_partial = take 5 (hf_layer l0 10)"


text \<open>The example checkpoint in two shards, cut between layer 0 and layer 1.\<close>

definition ex_shard1 :: "nat state_dict" where
  "ex_shard1 = hf_layer l0 10 @ [(''model.embed_tokens.weight'', [7])]"

definition ex_shard2 :: "nat state_dict" where
  "ex_shard2 = hf_layer l1 20"




text \<open>
  Collaborators for the examples: a checkpoint directory \<^verbatim>\<open>ckpt\<close> with an index file and two
  shards and a constructor that builds the example model when the slot holds the adapter
  class; and a constructor that overwrites the slot and raises, with no index file.
\<close>

definition ex_ext :: "(unit, nat) externals" where
  "ex_ext =
     \<lparr>LlamaForCausalLM =
        (\<lambda>config w. (w, Inr (if LlamaDecoderLayer w = TELlamaDecoderLayer then ex_te else []))),
      to_dtype = (\<lambda>m torch_dtype. m),
      isfile = (\<lambda>p. p = ''ckpt/pytorch_model.bin.index.json''),
      get_checkpoint_shard_files = (\<lambda>p archive_file. Inr [''ckpt/shard1.bin'', ''ckpt/shard2.bin'']),
      load_state_dict =
        (\<lambda>f. if f = ''ckpt/shard1.bin'' then Inr ex_shard1
             else if f = ''ckpt/shard2.bin'' then Inr ex_shard2
             else Inl (Raised ''no such file'')),
      load_state_dict_into_model = (\<lambda>m state_dict. (m, []))\<rparr>"

definition ex_ext_raising :: "(unit, nat) externals" where
  "ex_ext_raising =
     ex_ext\<lparr>LlamaForCausalLM :=
               (\<lambda>config w. (w\<lparr>LlamaDecoderLayer := OtherClass 1\<rparr>, Inl (Raised ''out of memory''))),
             isfile := (\<lambda>p. False)\<rparr>"

definition ex_world :: world where
  "ex_world = \<lparr>LlamaDecoderLayer = HFLlamaDecoderLayer, io_log = []\<rparr>"

section \<open>Properties of the weight remapper\<close>

subsection \<open>Keys are preserved\<close>

lemma keys_copy_into: "map fst (copy_into d k v) = map fst d"
  by (induction d) (auto simp: copy_into_def)

lemma contains_copy_into: "contains (copy_into d k v) k' = contains d k'"
  by (simp add: contains_def keys_copy_into)

lemma keys_apply_rule: "map fst (fst (apply_rule hf p r te)) = map fst te"
  by (simp add: apply_rule_def keys_copy_into split: sum.splits)

lemma keys_apply_rules: "map fst (fst (apply_rules hf p rs te)) = map fst te"
proof (induction rs arbitrary: te)
  case Nil
  show ?case by simp
next
  case (Cons r rs)
  obtain te' eo where st: "apply_rule hf p r te = (te', eo)" by (cases "apply_rule hf p r te")
  have k: "map fst te' = map fst te" using keys_apply_rule [of hf p r te] st by simp
  show ?case
  proof (cases eo)
    case None
    then show ?thesis using st Cons.IH [of te'] k by simp
  next
    case (Some e)
    then show ?thesis using st k by simp
  qed
qed

lemma keys_update_layers: "map fst (fst (update_layers hf ps te)) = map fst te"
proof (induction ps arbitrary: te)
  case Nil
  show ?case by simp
next
  case (Cons p ps)
  obtain te' eo where st: "apply_rules hf p correspondence te = (te', eo)"
    by (cases "apply_rules hf p correspondence te")
  have k: "map fst te' = map fst te" using keys_apply_rules [of hf p correspondence te] st by simp
  show ?case
  proof (cases eo)
    case None
    then show ?thesis using st Cons.IH [of te'] k by simp
  next
    case (Some e)
    then show ?thesis using st k by simp
  qed
qed

lemma distinct_target_suffixes: "distinct (map fst correspondence)"
  by (simp add: correspondence_def)

lemma no_proper_suffix:
  "\<forall>t1 \<in> set (map fst correspondence). \<forall>t2 \<in> set (map fst correspondence).
     length t2 \<le> length t1 \<longrightarrow> drop (length t1 - length t2) t1 = t2 \<longrightarrow> t1 = t2"
  by (simp add: correspondence_def)

lemma target_key_inj:
  assumes r1: "r1 \<in> set correspondence" and r2: "r2 \<in> set correspondence"
    and eq: "p1 @ fst r1 = p2 @ fst r2"
  shows "p1 = p2 \<and> r1 = r2"
proof -
  have suf: "\<And>a b (x::string) y. a @ x = b @ y \<Longrightarrow> length y \<le> length x \<Longrightarrow> drop (length x - length y) x = y"
  proof -
    fix a b :: string and x y :: string
    assume e: "a @ x = b @ y" and le: "length y \<le> length x"
    have len: "length a + length x = length b + length y"
      using e by (metis length_append)
    have "drop (length b) (a @ x) = y" using e by simp
    moreover have "length b = length a + (length x - length y)" using len le by arith
    ultimately show "drop (length x - length y) x = y" by simp
  qed
  have m1: "fst r1 \<in> set (map fst correspondence)" using r1 by simp
  have m2: "fst r2 \<in> set (map fst correspondence)" using r2 by simp
  have t: "fst r1 = fst r2"
  proof (cases "length (fst r2) \<le> length (fst r1)")
    case True
    then show ?thesis using suf [OF eq True] no_proper_suffix m1 m2 by blast
  next
    case False
    then have le: "length (fst r1) \<le> length (fst r2)" by simp
    show ?thesis using suf [OF eq [symmetric] le] no_proper_suffix m1 m2 le by metis
  qed
  then have "p1 = p2" using eq by simp
  moreover have "r1 = r2"
    using t r1 r2 distinct_target_suffixes by (metis eq_key_imp_eq_value prod.collapse)
  ultimately show ?thesis by simp
qed

lemma all_layer_prefixes_fold:
  "fold (\<lambda>param_key acc. case re_match layer_prefix_pat param_key of None \<Rightarrow> acc | Some g \<Rightarrow> insert g acc) ks A
     = A \<union> {g. \<exists>k\<in>set ks. re_match layer_prefix_pat k = Some g}"
  by (induction ks arbitrary: A) (auto split: option.splits)

lemma all_layer_prefixes_eq:
  "all_layer_prefixes hf = {g. \<exists>k\<in>set (map fst hf). re_match layer_prefix_pat k = Some g}"
  unfolding all_layer_prefixes_def all_layer_prefixes_fold by simp

lemma set_map_filter_eq: "set (List.map_filter f xs) = {y. \<exists>x\<in>set xs. f x = Some y}"
  by (induction xs) (auto simp: List.map_filter_simps split: option.splits)

lemma first_occurrence_order_ok: "iteration_order hf (first_occurrence_order hf)"
  by (simp add: iteration_order_def first_occurrence_order_def all_layer_prefixes_eq
      set_map_filter_eq)

lemma contains_map_of: "contains d k = (map_of d k \<noteq> None)"
  by (simp add: contains_def map_of_eq_None_iff)

lemma source_value_Inr_iff:
  "(\<exists>v. source_value hf p src = Inr v) \<longleftrightarrow> (\<forall>s\<in>set (source_keys src). contains hf (p @ s))"
  by (cases src) (auto simp: getitem_def contains_map_of split: option.splits sum.splits)


lemma writes_unique:
  assumes "S \<subseteq> UNIV \<times> set correspondence" "writes hf S k v" "writes hf S k v'"
  shows "v = v'"
proof -
  obtain p r where a: "(p, r) \<in> S" "k = p @ fst r" "source_value hf p (snd r) = Inr v"
    using assms(2) by (auto simp: writes_def)
  obtain p' r' where b: "(p', r') \<in> S" "k = p' @ fst r'" "source_value hf p' (snd r') = Inr v'"
    using assms(3) by (auto simp: writes_def)
  have "r \<in> set correspondence" "r' \<in> set correspondence" using a(1) b(1) assms(1) by auto
  then have "p = p' \<and> r = r'" using target_key_inj [of r r' p p'] a(2) b(2) by simp
  then show ?thesis using a(3) b(3) by simp
qed

lemma remap_rel_refl: "list_all2 (remap_rel hf {}) te te"
  by (simp add: list_all2_refl remap_rel_def targets_def)

lemma remap_rel_skip:
  assumes "list_all2 (remap_rel hf S) te0 te" "\<not> contains te (p @ fst r)"
  shows "list_all2 (remap_rel hf (insert (p, r) S)) te0 te"
proof (rule list.rel_mono_strong [OF assms(1)])
  fix x y assume xy: "x \<in> set te0" "y \<in> set te" "remap_rel hf S x y"
  have "fst y \<noteq> p @ fst r"
  proof
    assume e: "fst y = p @ fst r"
    have "fst y \<in> fst ` set te" using xy(2) by (rule imageI)
    then show False using e assms(2) by (simp add: contains_def)
  qed
  then have ne: "fst x \<noteq> p @ fst r" using xy(3) by (simp add: remap_rel_def)
  then have t: "fst x \<in> targets (insert (p, r) S) \<longleftrightarrow> fst x \<in> targets S"
    by (auto simp: targets_def)
  have w: "\<And>v. writes hf S (fst x) v \<Longrightarrow> writes hf (insert (p, r) S) (fst x) v"
    by (auto simp: writes_def)
  show "remap_rel hf (insert (p, r) S) x y"
    using xy(3) t w by (auto simp: remap_rel_def)
qed

lemma remap_rel_copy:
  assumes "list_all2 (remap_rel hf S) te0 te" "source_value hf p (snd r) = Inr v"
  shows "list_all2 (remap_rel hf (insert (p, r) S)) te0 (copy_into te (p @ fst r) v)"
  unfolding copy_into_def list_all2_map2
proof (rule list.rel_mono_strong [OF assms(1)])
  fix x y assume xy: "x \<in> set te0" "y \<in> set te" "remap_rel hf S x y"
  obtain k t where y: "y = (k, t)" by (cases y)
  have kx: "fst x = k" using xy(3) y by (simp add: remap_rel_def)
  show "remap_rel hf (insert (p, r) S) x
          (case y of (k', t) \<Rightarrow> if k' = p @ fst r then (k', v) else (k', t))"
  proof (cases "k = p @ fst r")
    case True
    have "fst x \<in> targets (insert (p, r) S)" using True kx by (auto simp: targets_def)
    moreover have "writes hf (insert (p, r) S) (fst x) v"
      using True kx assms(2) by (auto simp: writes_def)
    ultimately show ?thesis using True y kx by (simp add: remap_rel_def)
  next
    case False
    then have t: "fst x \<in> targets (insert (p, r) S) \<longleftrightarrow> fst x \<in> targets S"
      using kx by (auto simp: targets_def)
    have w: "\<And>v. writes hf S (fst x) v \<Longrightarrow> writes hf (insert (p, r) S) (fst x) v"
      by (auto simp: writes_def)
    show ?thesis using False y kx xy(3) t w by (auto simp: remap_rel_def)
  qed
qed

lemma remap_rel_apply_rule:
  assumes "list_all2 (remap_rel hf S) te0 te" "apply_rule hf p r te = (te', None)"
  shows "list_all2 (remap_rel hf (insert (p, r) S)) te0 te'"
proof (cases "contains te (p @ fst r)")
  case False
  then have "te' = te" using assms(2) by (simp add: apply_rule_def)
  then show ?thesis using remap_rel_skip [OF assms(1) False] by simp
next
  case True
  then obtain v where v: "source_value hf p (snd r) = Inr v" "te' = copy_into te (p @ fst r) v"
    using assms(2) by (auto simp: apply_rule_def split: sum.splits)
  show ?thesis using remap_rel_copy [OF assms(1) v(1)] v(2) by simp
qed

lemma remap_rel_apply_rules:
  assumes "list_all2 (remap_rel hf S) te0 te" "apply_rules hf p rs te = (te', None)"
  shows "list_all2 (remap_rel hf (S \<union> {p} \<times> set rs)) te0 te'"
  using assms
proof (induction rs arbitrary: S te)
  case Nil
  then show ?case by simp
next
  case (Cons r rs)
  obtain te1 eo where st: "apply_rule hf p r te = (te1, eo)" by (cases "apply_rule hf p r te")
  have eo: "eo = None" using Cons.prems(2) st by (cases eo) auto
  have r1: "list_all2 (remap_rel hf (insert (p, r) S)) te0 te1"
    using remap_rel_apply_rule [OF Cons.prems(1)] st eo by simp
  have "apply_rules hf p rs te1 = (te', None)" using Cons.prems(2) st eo by simp
  from Cons.IH [OF r1 this]
  have "list_all2 (remap_rel hf (insert (p, r) S \<union> {p} \<times> set rs)) te0 te'" .
  moreover have "insert (p, r) S \<union> {p} \<times> set rs = S \<union> {p} \<times> set (r # rs)" by auto
  ultimately show ?case by simp
qed

lemma remap_rel_update_layers:
  assumes "list_all2 (remap_rel hf S) te0 te" "update_layers hf ps te = (te', None)"
  shows "list_all2 (remap_rel hf (S \<union> set ps \<times> set correspondence)) te0 te'"
  using assms
proof (induction ps arbitrary: S te)
  case Nil
  then show ?case by simp
next
  case (Cons p ps)
  obtain te1 eo where st: "apply_rules hf p correspondence te = (te1, eo)"
    by (cases "apply_rules hf p correspondence te")
  have eo: "eo = None" using Cons.prems(2) st by (cases eo) auto
  have r1: "list_all2 (remap_rel hf (S \<union> {p} \<times> set correspondence)) te0 te1"
    using remap_rel_apply_rules [OF Cons.prems(1)] st eo by simp
  have "update_layers hf ps te1 = (te', None)" using Cons.prems(2) st eo by simp
  from Cons.IH [OF r1 this]
  have "list_all2 (remap_rel hf (S \<union> {p} \<times> set correspondence \<union> set ps \<times> set correspondence)) te0 te'" .
  moreover have "S \<union> {p} \<times> set correspondence \<union> set ps \<times> set correspondence
      = S \<union> set (p # ps) \<times> set correspondence" by auto
  ultimately show ?case by simp
qed

lemma update_layers_remap:
  assumes "update_layers hf ps te = (te', None)"
  shows "list_all2 (remap_rel hf (set ps \<times> set correspondence)) te te'"
  using remap_rel_update_layers [OF remap_rel_refl assms] by simp

subsection \<open>When a run completes\<close>

lemma contains_keys_eq: "map fst te' = map fst te \<Longrightarrow> contains te' k = contains te k"
  by (simp add: contains_def)

lemma apply_rule_None_iff:
  "snd (apply_rule hf p r te) = None \<longleftrightarrow>
     (contains te (p @ fst r) \<longrightarrow> (\<forall>s\<in>set (source_keys (snd r)). contains hf (p @ s)))"
proof (cases "contains te (p @ fst r)")
  case False
  then show ?thesis by (simp add: apply_rule_def)
next
  case True
  show ?thesis
  proof (cases "source_value hf p (snd r)")
    case (Inl e)
    then have "\<not> (\<exists>v. source_value hf p (snd r) = Inr v)" by simp
    then show ?thesis using True Inl source_value_Inr_iff [of hf p "snd r"]
      by (simp add: apply_rule_def)
  next
    case (Inr v)
    then have "\<exists>v. source_value hf p (snd r) = Inr v" by simp
    then show ?thesis using True Inr source_value_Inr_iff [of hf p "snd r"]
      by (simp add: apply_rule_def)
  qed
qed


lemma apply_rules_None_iff:
  "snd (apply_rules hf p rs te) = None \<longleftrightarrow>
     (\<forall>r\<in>set rs. contains te (p @ fst r) \<longrightarrow> (\<forall>s\<in>set (source_keys (snd r)). contains hf (p @ s)))"
proof (induction rs arbitrary: te)
  case Nil
  show ?case by simp
next
  case (Cons r rs)
  obtain te1 eo where st: "apply_rule hf p r te = (te1, eo)" by (cases "apply_rule hf p r te")
  have k: "map fst te1 = map fst te" using keys_apply_rule [of hf p r te] st by simp
  have c: "\<And>k. contains te1 k = contains te k" using contains_keys_eq [OF k] .
  have h: "eo = None \<longleftrightarrow>
     (contains te (p @ fst r) \<longrightarrow> (\<forall>s\<in>set (source_keys (snd r)). contains hf (p @ s)))"
    using apply_rule_None_iff [of hf p r te] st by simp
  show ?case
  proof (cases eo)
    case None
    then show ?thesis using st h Cons.IH [of te1] c by simp
  next
    case (Some e)
    then show ?thesis using st h by auto
  qed
qed


lemma update_layers_None_iff:
  "snd (update_layers hf ps te) = None \<longleftrightarrow> sources_present hf te (set ps)"
proof (induction ps arbitrary: te)
  case Nil
  show ?case by (simp add: sources_present_def)
next
  case (Cons p ps)
  obtain te1 eo where st: "apply_rules hf p correspondence te = (te1, eo)"
    by (cases "apply_rules hf p correspondence te")
  have k: "map fst te1 = map fst te" using keys_apply_rules [of hf p correspondence te] st by simp
  have c: "\<And>k. contains te1 k = contains te k" using contains_keys_eq [OF k] .
  have sp: "sources_present hf te1 (set ps) = sources_present hf te (set ps)"
    by (simp add: sources_present_def c)
  have h: "eo = None \<longleftrightarrow> sources_present hf te {p}"
    using apply_rules_None_iff [of hf p correspondence te] st by (simp add: sources_present_def)
  have u: "sources_present hf te (set (p # ps))
      \<longleftrightarrow> sources_present hf te {p} \<and> sources_present hf te (set ps)"
    by (auto simp: sources_present_def)
  show ?case
  proof (cases eo)
    case None
    then show ?thesis using st h Cons.IH [of te1] sp u by simp
  next
    case (Some e)
    then show ?thesis using st h u by auto
  qed
qed



lemma replace_params_in_success:
  assumes "sources_present hf te (set ps)"
  shows "\<exists>te'. replace_params_in ps hf te = (te', Inr (all_layer_prefixes hf))
           \<and> list_all2 (remap_rel hf (set ps \<times> set correspondence)) te te'"
proof -
  obtain te' eo where st: "update_layers hf ps te = (te', eo)" by (cases "update_layers hf ps te")
  have "eo = None" using update_layers_None_iff [of hf ps te] assms st by simp
  then show ?thesis using st update_layers_remap [of hf ps te te']
    by (simp add: replace_params_in_def)
qed

lemma replace_params_in_Inr:
  assumes "replace_params_in ps hf te = (te', Inr R)"
  shows "R = all_layer_prefixes hf \<and> sources_present hf te (set ps)
           \<and> list_all2 (remap_rel hf (set ps \<times> set correspondence)) te te'"
proof -
  obtain te1 eo where st: "update_layers hf ps te = (te1, eo)" by (cases "update_layers hf ps te")
  have eo: "eo = None" using assms st by (cases eo) (auto simp: replace_params_in_def)
  then have "te1 = te'" "R = all_layer_prefixes hf"
    using assms st by (auto simp: replace_params_in_def)
  moreover have "sources_present hf te (set ps)"
    using update_layers_None_iff [of hf ps te] st eo by simp
  ultimately show ?thesis using st eo update_layers_remap [of hf ps te te1] by simp
qed




section \<open>The claims\<close>

subsection \<open>Round trip\<close>





subsection \<open>Keys of the target\<close>

text \<open>
  C9. \<^verbatim>\<open>replace_params\<close> never creates a key in the target dict: for every source dict, every
  target dict and every order of the prefixes, also when the call raises, the target dict
  has the same keys in the same places after the call as before it, so that only the values
  of entries that existed are overwritten.
\<close>

theorem keys_never_created:
  "map fst (fst (replace_params_in ps hf te)) = map fst te
     \<and> length (fst (replace_params_in ps hf te)) = length te
     \<and> (\<forall>k. contains (fst (replace_params_in ps hf te)) k = contains te k)"
proof -
  obtain te' eo where st: "update_layers hf ps te = (te', eo)" by (cases "update_layers hf ps te")
  have k: "map fst te' = map fst te" using keys_update_layers [of hf ps te] st by simp
  have f: "fst (replace_params_in ps hf te) = te'"
    using st by (cases eo) (simp_all add: replace_params_in_def)
  have "length (map fst te') = length (map fst te)" using k by simp
  then have l: "length te' = length te" by simp
  show ?thesis using k l f contains_keys_eq [OF k] by simp
qed

theorem keys_never_created_witness:
  "map fst (fst (replace_params_in [l0] ex_hf_partial (te_layer l0))) = map fst (te_layer l0)
     \<and> snd (replace_params_in [l0] ex_hf_partial (te_layer l0))
         = Inl (KeyError ''model.layers.0.post_attention_layernorm.weight'')"
proof -
  have e: "snd (replace_params_in [l0] ex_hf_partial (te_layer l0))
         = Inl (KeyError ''model.layers.0.post_attention_layernorm.weight'')"
    by code_simp
  from keys_never_created [of "[l0]" ex_hf_partial "te_layer l0"] show ?thesis
    using e by simp
qed

subsection \<open>A missing source key\<close>



subsection \<open>Idempotence\<close>

lemma list_all2_unique:
  assumes "list_all2 R xs ys" "list_all2 R' xs zs"
    and "\<And>x y z. x \<in> set xs \<Longrightarrow> R x y \<Longrightarrow> R' x z \<Longrightarrow> y = z"
  shows "ys = zs"
  using assms
proof (induction xs arbitrary: ys zs)
  case Nil
  then show ?case by simp
next
  case (Cons x xs)
  obtain y ys' where ys: "ys = y # ys'" "R x y" "list_all2 R xs ys'"
    using Cons.prems(1) by (auto simp: list_all2_Cons1)
  obtain z zs' where zs: "zs = z # zs'" "R' x z" "list_all2 R' xs zs'"
    using Cons.prems(2) by (auto simp: list_all2_Cons1)
  have "y = z" using Cons.prems(3) [of x y z] ys(2) zs(2) by simp
  moreover have "ys' = zs'"
  proof (rule Cons.IH [OF ys(3) zs(3)])
    fix a b c assume "a \<in> set xs" "R a b" "R' a c"
    then show "b = c" using Cons.prems(3) [of a b c] by simp
  qed
  ultimately show ?case using ys(1) zs(1) by simp
qed


text \<open>
  A run that completes leaves the same target dict and returns the same set in every
  order in which the prefixes are visited.
\<close>

lemma remap_rel_functional:
  assumes S: "S \<subseteq> UNIV \<times> set correspondence"
    and a: "list_all2 (remap_rel hf S) te te1" and b: "list_all2 (remap_rel hf S) te te2"
  shows "te1 = te2"
proof (rule list_all2_unique [OF a b])
  fix x y z assume "x \<in> set te" and xy: "remap_rel hf S x y" and xz: "remap_rel hf S x z"
  have k: "fst y = fst x" "fst z = fst x" using xy xz by (simp_all add: remap_rel_def)
  have "snd y = snd z"
  proof (cases "fst x \<in> targets S")
    case True
    then have "writes hf S (fst x) (snd y)" "writes hf S (fst x) (snd z)"
      using xy xz by (simp_all add: remap_rel_def)
    then show ?thesis using writes_unique [OF S] by blast
  next
    case False
    then show ?thesis using xy xz by (simp add: remap_rel_def)
  qed
  then show "y = z" using k by (simp add: prod_eq_iff)
qed

lemma order_irrelevant:
  assumes set: "set ps' = set ps" and ok: "snd (replace_params_in ps hf te) = Inr R"
  shows "replace_params_in ps' hf te = replace_params_in ps hf te"
proof -
  let ?S = "set ps \<times> set correspondence"
  have "replace_params_in ps hf te = (fst (replace_params_in ps hf te), Inr R)"
    using ok by (simp add: prod_eq_iff)
  then have r: "R = all_layer_prefixes hf" "sources_present hf te (set ps)"
      "list_all2 (remap_rel hf ?S) te (fst (replace_params_in ps hf te))"
    using replace_params_in_Inr by blast+
  obtain te' where te': "replace_params_in ps' hf te = (te', Inr (all_layer_prefixes hf))"
      "list_all2 (remap_rel hf (set ps' \<times> set correspondence)) te te'"
    using replace_params_in_success [of hf te ps'] r(2) set by auto
  have "te' = fst (replace_params_in ps hf te)"
    using remap_rel_functional [of ?S hf te te' "fst (replace_params_in ps hf te)"] te'(2) r(3) set
    by auto
  then show ?thesis using te'(1) ok r(1) by (simp add: prod_eq_iff)
qed

lemma replace_params_any_order:
  assumes "iteration_order hf ps" "snd (replace_params_in ps hf te) = Inr R"
  shows "replace_params hf te = replace_params_in ps hf te"
  unfolding replace_params_def
  using order_irrelevant [OF _ assms(2), of "first_occurrence_order hf"]
    first_occurrence_order_ok [of hf] assms(1)
  by (simp add: iteration_order_def)



subsection \<open>The returned set\<close>




subsection \<open>Targets with fewer layers\<close>





subsection \<open>Shards\<close>

lemma shard_of_lookup:
  assumes "shard_of hf1 hf" "map_of hf1 k = Some v"
  shows "map_of hf k = Some v"
proof -
  have "(k, v) \<in> set hf1" using assms(2) by (rule map_of_SomeD)
  then have "fst (k, v) \<in> fst ` set hf1" by (rule imageI)
  then have "k \<in> set (map fst hf1)" by simp
  then have "map_of hf k = map_of hf1 k" using assms(1) unfolding shard_of_def by blast
  then show ?thesis using assms(2) by simp
qed





lemma layer_split_prefixes:
  assumes "layer_split hf hf1 hf2"
  shows "all_layer_prefixes hf = all_layer_prefixes hf1 \<union> all_layer_prefixes hf2"
proof -
  have "set (map fst hf) = set (map fst hf1) \<union> set (map fst hf2)"
    using assms by (simp add: layer_split_def)
  then show ?thesis unfolding all_layer_prefixes_eq by blast
qed

lemma shard_of_contains: "shard_of hf1 hf \<Longrightarrow> contains hf1 k \<Longrightarrow> contains hf k"
  using shard_of_lookup [of hf1 hf k] by (auto simp: contains_map_of)

lemma layer_split_complete:
  assumes "layer_split hf hf1 hf2"
  shows "complete_source hf"
  unfolding complete_source_def
proof (intro ballI)
  fix p r s
  assume p: "p \<in> all_layer_prefixes hf" and r: "r \<in> set correspondence"
    and s: "s \<in> set (source_keys (snd r))"
  have sh: "shard_of hf1 hf" "shard_of hf2 hf" "complete_source hf1" "complete_source hf2"
    using assms by (simp_all add: layer_split_def)
  have "p \<in> all_layer_prefixes hf1 \<or> p \<in> all_layer_prefixes hf2"
    using p layer_split_prefixes [OF assms] by simp
  then have "contains hf1 (p @ s) \<or> contains hf2 (p @ s)"
    using sh(3,4) r s by (auto simp: complete_source_def)
  then show "contains hf (p @ s)" using sh(1,2) shard_of_contains by blast
qed



subsection \<open>Keys outside the layers\<close>

text \<open>
  A source dict none of whose keys is matched by the pattern of the code has no effect:
  the call returns the empty set and the target dict is unchanged. On every name that
  begins with \<^verbatim>\<open>model.layers.\<close>, digits and a dot, the pattern of the code and the pattern
  of the specification return the same prefix.
\<close>

lemma no_prefix_noop:
  assumes "iteration_order hf ps" "all_layer_prefixes hf = {}"
  shows "replace_params_in ps hf te = (te, Inr {})"
proof -
  have "ps = []" using assms by (simp add: iteration_order_def)
  then show ?thesis using assms(2) by (simp add: replace_params_in_def)
qed

lemma no_prefix_noop_example:
  "replace_params [(''model.embed_tokens.weight'', [7::nat])] ex_te = (ex_te, Inr {})"
  by code_simp

lemma match_more_digits:
  assumes "\<forall>d\<in>set ds. is_digit d" "\<not> is_digit c" "atom_matches a c"
  shows "match_more Digit [One a] (ds @ c # rest) = Some (ds @ [c])"
  using assms by (induction ds) simp_all

lemma patterns_agree_on_layer_keys:
  assumes "ds \<noteq> []" "\<forall>d\<in>set ds. is_digit d"
  shows "re_match spec_layer_prefix_pat (''model.layers.'' @ ds @ ''.'' @ rest)
           = Some (''model.layers.'' @ ds @ ''.'')
       \<and> re_match layer_prefix_pat (''model.layers.'' @ ds @ ''.'' @ rest)
           = Some (''model.layers.'' @ ds @ ''.'')"
proof -
  obtain d ds' where ds: "ds = d # ds'" using assms(1) by (cases ds) auto
  have d: "is_digit d" "\<forall>d\<in>set ds'. is_digit d" using assms(2) ds by simp_all
  have dot: "\<not> is_digit CHR ''.''" by (simp add: is_digit_def)
  have a: "match_more Digit [One (Lit CHR ''.'')] (ds' @ CHR ''.'' # rest) = Some (ds' @ ''.'')"
    using match_more_digits [OF d(2) dot, of "Lit CHR ''.''" rest] by simp
  have b: "match_more Digit [One AnyChar] (ds' @ CHR ''.'' # rest) = Some (ds' @ ''.'')"
    using match_more_digits [OF d(2) dot, of AnyChar rest] by simp
  show ?thesis
    using a b d(1) ds
    by (simp add: re_match_def spec_layer_prefix_pat_def layer_prefix_pat_def literal_def)
qed

lemma spec_pattern_example:
  "re_match spec_layer_prefix_pat ''model.layers.12.mlp.up_proj.weight'' = Some ''model.layers.12.''
     \<and> re_match layer_prefix_pat ''model.layers.12.mlp.up_proj.weight'' = Some ''model.layers.12.''
     \<and> re_match spec_layer_prefix_pat ''model.embed_tokens.weight'' = None
     \<and> re_match layer_prefix_pat ''model.embed_tokens.weight'' = None"
  by code_simp


subsection \<open>The model assembler\<close>

lemma replace_decoder_restores:
  "LlamaDecoderLayer (fst (replace_decoder cls body w)) = LlamaDecoderLayer w
     \<and> snd (replace_decoder cls body w) = snd (body (w\<lparr>LlamaDecoderLayer := cls\<rparr>))
     \<and> io_log (fst (replace_decoder cls body w)) = io_log (fst (body (w\<lparr>LlamaDecoderLayer := cls\<rparr>)))"
proof -
  obtain w2 r where b: "body (w\<lparr>LlamaDecoderLayer := cls\<rparr>) = (w2, r)"
    by (cases "body (w\<lparr>LlamaDecoderLayer := cls\<rparr>)")
  show ?thesis using b by (cases r) (simp_all add: replace_decoder_def)
qed

text \<open>
  C6. For every configuration, every constructor of the host model and every world,
  \<^verbatim>\<open>TELlamaForCausalLM(config)\<close> leaves the slot of the decoder-layer class as it found it,
  whether the construction returned or raised; the constructor runs in the world whose slot
  holds the adapter class, and its result or its exception is the result of the call.
\<close>

theorem decoder_class_restored:
  "LlamaDecoderLayer (fst (TELlamaForCausalLM_new ext config w)) = LlamaDecoderLayer w
     \<and> snd (TELlamaForCausalLM_new ext config w)
         = snd (LlamaForCausalLM ext config (w\<lparr>LlamaDecoderLayer := TELlamaDecoderLayer\<rparr>))"
  using replace_decoder_restores [of TELlamaDecoderLayer "LlamaForCausalLM ext config" w]
  by (simp add: TELlamaForCausalLM_new_def)

theorem decoder_class_restored_witness:
  "LlamaDecoderLayer (fst (TELlamaForCausalLM_new ex_ext_raising () ex_world)) = HFLlamaDecoderLayer
     \<and> snd (TELlamaForCausalLM_new ex_ext_raising () ex_world) = Inl (Raised ''out of memory'')
     \<and> LlamaDecoderLayer (fst (TELlamaForCausalLM_new ex_ext () ex_world)) = HFLlamaDecoderLayer
     \<and> snd (TELlamaForCausalLM_new ex_ext () ex_world) = Inr ex_te"
  using decoder_class_restored [of ex_ext_raising "()" ex_world]
    decoder_class_restored [of ex_ext "()" ex_world]
  by (simp add: ex_ext_raising_def ex_ext_def ex_world_def)




end
